theory Spec2Isabelle
  imports Main "HOL-Library.Word" "HOL-Library.Sublist"
begin

section \<open>JavaScript values and exceptions\<close>

text \<open>
  The program is a set of JavaScript classes (\<^verbatim>\<open>Socketb\<close>, \<^verbatim>\<open>Request\<close>,
  \<^verbatim>\<open>ReqMgr\<close>, \<^verbatim>\<open>Tunnel\<close>).  Every method is embedded as a function on the
  fields of its object, named \<^verbatim>\<open>Class_method\<close>.  An exception is a value of type
  \<open>error\<close>; a method that can throw after it has written to a field returns the
  state it leaves behind together with the exception.
\<close>

datatype error = TypeError | ReferenceError | RangeError

type_synonym byte = "8 word"

text \<open>
  A field that holds a number, or nothing yet: \<^verbatim>\<open>undefined > 3\<close> and \<^verbatim>\<open>NaN > 3\<close> are
  false, \<^verbatim>\<open>undefined++\<close> and \<^verbatim>\<open>NaN++\<close> leave \<^verbatim>\<open>NaN\<close>.
\<close>

datatype jsnum = Undefined | NaN | Num int

fun js_gt :: "jsnum \<Rightarrow> int \<Rightarrow> bool" where
  "js_gt (Num n) k = (n > k)"
| "js_gt Undefined k = False"
| "js_gt NaN k = False"

fun js_incr :: "jsnum \<Rightarrow> jsnum" where
  "js_incr (Num n) = Num (n + 1)"
| "js_incr Undefined = NaN"
| "js_incr NaN = NaN"

text \<open>A boolean property that may be absent: \<^verbatim>\<open>undefined\<close> is falsy.\<close>

fun truthy :: "bool option \<Rightarrow> bool" where
  "truthy (Some b) = b"
| "truthy None = False"

section \<open>Socketb: the egress socket (socketb.js)\<close>

definition STATE_CONNECTING :: nat where "STATE_CONNECTING = 0"
definition STATE_CONNECTTED :: nat where "STATE_CONNECTTED = 1"
definition STATE_CLOSED :: nat where "STATE_CLOSED = 2"

text \<open>
  The stream returned by \<^verbatim>\<open>connect(address)\<close> belongs to the runtime.  Of it the
  model keeps the address it was opened to, whether \<^verbatim>\<open>close()\<close> has been called on
  it, and the chunks its writer has been given.
\<close>

record stream =
  peer :: string
  close_called :: bool
  written :: "byte list list"

record socketb =
  state :: nat
  sock :: "stream option"
  chunks2Send :: "byte list list"
  sb_inSending :: bool

definition Socketb_new :: "string \<Rightarrow> socketb" where
  "Socketb_new address =
     \<lparr>state = STATE_CONNECTING,
      sock = Some \<lparr>peer = address, close_called = False, written = []\<rparr>,
      chunks2Send = [],
      sb_inSending = False\<rparr>"

definition Socketb_isClosed :: "socketb \<Rightarrow> bool" where
  "Socketb_isClosed s = (state s = STATE_CLOSED)"

text \<open>
  \<^verbatim>\<open>startSendLoop\<close> ends in the call \<^verbatim>\<open>writeLoop()\<close>.  The module binds no identifier
  \<^verbatim>\<open>writeLoop\<close> (the method of that name is reached only as \<^verbatim>\<open>this.writeLoop\<close>), so
  evaluating the call raises \<^verbatim>\<open>ReferenceError\<close>.
\<close>

definition Socketb_startSendLoop :: "socketb \<Rightarrow> error option \<times> socketb" where
  "Socketb_startSendLoop s =
     (if sb_inSending s then (None, s) else (Some ReferenceError, s))"

definition Socketb_write :: "socketb \<Rightarrow> byte list \<Rightarrow> error option \<times> socketb" where
  "Socketb_write s chunk =
     (if Socketb_isClosed s then (None, s)
      else let s1 = s\<lparr>chunks2Send := chunks2Send s @ [chunk]\<rparr>
           in if \<not> sb_inSending s1 then Socketb_startSendLoop s1 else (None, s1))"

text \<open>\<^verbatim>\<open>shutdownWrite\<close> has an empty body.\<close>

definition Socketb_shutdownWrite :: "socketb \<Rightarrow> socketb" where
  "Socketb_shutdownWrite s = s"

definition Socketb_close :: "socketb \<Rightarrow> socketb" where
  "Socketb_close s =
     (case sock s of
        None \<Rightarrow> s
      | Some k \<Rightarrow> s\<lparr>sock := Some (k\<lparr>close_called := True\<rparr>)\<rparr>)"

section \<open>Request: one slot (request.js)\<close>

text \<open>
  The constructor sets \<^verbatim>\<open>tag\<close>, \<^verbatim>\<open>inUsed\<close> and \<^verbatim>\<open>socketb\<close>; \<^verbatim>\<open>isUsed\<close> and \<^verbatim>\<open>idx\<close>
  come into being when \<^verbatim>\<open>ReqMgr.alloc\<close> first writes them.  A \<^verbatim>\<open>Socketb\<close> object is
  referred to by its position in the list of all sockets created so far.
\<close>

record request =
  tag :: int
  inUsed :: bool
  isUsed :: "bool option"
  idx :: "int option"
  socketb :: "nat option"

definition Request_new :: "int \<Rightarrow> request" where
  "Request_new t = \<lparr>tag = t, inUsed = False, isUsed = None, idx = None, socketb = None\<rparr>"

definition Request_free :: "socketb list \<Rightarrow> request \<Rightarrow> socketb list \<times> request" where
  "Request_free socks r =
     (case socketb r of
        None \<Rightarrow> (socks, r)
      | Some a \<Rightarrow> (socks[a := Socketb_close (socks ! a)], r\<lparr>socketb := None\<rparr>))"

definition Request_onClientData ::
  "socketb list \<Rightarrow> request \<Rightarrow> byte list \<Rightarrow> nat \<Rightarrow> error option \<times> socketb list" where
  "Request_onClientData socks r databuf offset =
     (case socketb r of
        None \<Rightarrow> (None, socks)
      | Some a \<Rightarrow>
          (case Socketb_write (socks ! a) (drop offset databuf) of
             (e, s') \<Rightarrow> (e, socks[a := s'])))"

definition Request_onClientFinished :: "socketb list \<Rightarrow> request \<Rightarrow> socketb list" where
  "Request_onClientFinished socks r =
     (case socketb r of
        None \<Rightarrow> socks
      | Some a \<Rightarrow> socks[a := Socketb_shutdownWrite (socks ! a)])"

definition Request_proxy :: "socketb list \<Rightarrow> request \<Rightarrow> string \<Rightarrow> socketb list \<times> request" where
  "Request_proxy socks r toAddr =
     (case socketb r of
        Some a \<Rightarrow> (socks, r)
      | None \<Rightarrow> (socks @ [Socketb_new toAddr], r\<lparr>socketb := Some (length socks)\<rparr>))"

section \<open>ReqMgr: the request table (reqmgr.js)\<close>

record reqmgr =
  cap :: int
  reqq :: "request list"

definition ReqMgr_new :: "int \<Rightarrow> reqmgr" where
  "ReqMgr_new c = \<lparr>cap = c, reqq = map (\<lambda>i. Request_new (int i)) [0..<nat c]\<rparr>"

text \<open>\<^verbatim>\<open>this.reqq[idx]\<close>: the element, or \<^verbatim>\<open>undefined\<close> where the array has none.\<close>

definition reqq_at :: "reqmgr \<Rightarrow> int \<Rightarrow> request option" where
  "reqq_at rm i = (if 0 \<le> i \<and> nat i < length (reqq rm) then Some (reqq rm ! nat i) else None)"

text \<open>Writing through the reference \<^verbatim>\<open>req\<close> changes the array's element.\<close>

definition reqq_put :: "reqmgr \<Rightarrow> int \<Rightarrow> request \<Rightarrow> reqmgr" where
  "reqq_put rm i r = rm\<lparr>reqq := (reqq rm)[nat i := r]\<rparr>"

text \<open>
  \<^verbatim>\<open>alloc\<close> returns \<^verbatim>\<open>null\<close> (\<open>None\<close>) or the slot, given here by its position.  It tests
  the field \<^verbatim>\<open>inUsed\<close> and writes the field \<^verbatim>\<open>isUsed\<close>.
\<close>

definition ReqMgr_alloc :: "reqmgr \<Rightarrow> int \<Rightarrow> int \<Rightarrow> error + (nat option \<times> reqmgr)" where
  "ReqMgr_alloc rm i t =
     (if i \<ge> cap rm \<or> i < 0 then Inr (None, rm)
      else case reqq_at rm i of
        None \<Rightarrow> Inl TypeError
      | Some req \<Rightarrow>
          if inUsed req then Inr (None, rm)
          else Inr (Some (nat i),
                    reqq_put rm i (req\<lparr>tag := t, idx := Some i, isUsed := Some True\<rparr>)))"

definition ReqMgr_free ::
  "socketb list \<Rightarrow> reqmgr \<Rightarrow> int \<Rightarrow> int \<Rightarrow> error + (socketb list \<times> reqmgr)" where
  "ReqMgr_free socks rm i t =
     (if i \<ge> cap rm \<or> i < 0 then Inr (socks, rm)
      else case reqq_at rm i of
        None \<Rightarrow> Inl TypeError
      | Some req \<Rightarrow>
          if \<not> truthy (isUsed req) then Inr (socks, rm)
          else if tag req \<noteq> t then Inr (socks, rm)
          else (case Request_free socks (req\<lparr>tag := tag req + 1, isUsed := Some False\<rparr>) of
                  (socks', req') \<Rightarrow> Inr (socks', reqq_put rm i req')))"

definition ReqMgr_get :: "reqmgr \<Rightarrow> int \<Rightarrow> int \<Rightarrow> error + nat option" where
  "ReqMgr_get rm i t =
     (if i \<ge> cap rm \<or> i < 0 then Inr None
      else case reqq_at rm i of
        None \<Rightarrow> Inl TypeError
      | Some req \<Rightarrow>
          if \<not> truthy (isUsed req) then Inr None
          else if tag req \<noteq> t then Inr None
          else Inr (Some (nat i)))"

text \<open>The loop of \<^verbatim>\<open>cleanup\<close>, over the indices \<open>0, 1, \<dots>, cap - 1\<close> in this order.\<close>

fun cleanup_loop :: "nat list \<Rightarrow> socketb list \<Rightarrow> reqmgr \<Rightarrow> error + (socketb list \<times> reqmgr)" where
  "cleanup_loop [] socks rm = Inr (socks, rm)"
| "cleanup_loop (i # is) socks rm =
     (case reqq_at rm (int i) of
        None \<Rightarrow> Inl TypeError
      | Some req \<Rightarrow>
          if inUsed req
          then (case Request_free socks (req\<lparr>tag := tag req + 1, isUsed := Some False\<rparr>) of
                  (socks', req') \<Rightarrow> cleanup_loop is socks' (reqq_put rm (int i) req'))
          else cleanup_loop is socks rm)"

definition ReqMgr_cleanup :: "socketb list \<Rightarrow> reqmgr \<Rightarrow> error + (socketb list \<times> reqmgr)" where
  "ReqMgr_cleanup socks rm = cleanup_loop [0..<nat (cap rm)] socks rm"

text \<open>
  What the constructor establishes and every method keeps: the array has \<open>cap\<close>
  elements, and no element's \<^verbatim>\<open>inUsed\<close> is set.
\<close>

definition table_ok :: "reqmgr \<Rightarrow> bool" where
  "table_ok rm = (length (reqq rm) = nat (cap rm) \<and> list_all (\<lambda>r. \<not> inUsed r) (reqq rm))"

section \<open>Buffers and strings\<close>

text \<open>
  \<^verbatim>\<open>Buffer.readUInt8\<close> and \<^verbatim>\<open>Buffer.readUInt16LE\<close> raise \<^verbatim>\<open>RangeError\<close> when the
  read does not fit in the buffer.
\<close>

definition readUInt8 :: "byte list \<Rightarrow> nat \<Rightarrow> error + int" where
  "readUInt8 b off = (if off < length b then Inr (uint (b ! off)) else Inl RangeError)"

definition readUInt16LE :: "byte list \<Rightarrow> nat \<Rightarrow> error + int" where
  "readUInt16LE b off =
     (if off + 2 \<le> length b then Inr (uint (b ! off) + 256 * uint (b ! (off + 1)))
      else Inl RangeError)"

fun sum_bind :: "error + 'a \<Rightarrow> ('a \<Rightarrow> error + 'b) \<Rightarrow> error + 'b" where
  "sum_bind (Inl e) f = Inl e"
| "sum_bind (Inr x) f = f x"

text \<open>A number as JavaScript's \<^verbatim>\<open>+\<close> puts it into a string: decimal digits.\<close>

definition digit :: "nat \<Rightarrow> char" where
  "digit d = char_of (48 + d)"

fun dec :: "nat \<Rightarrow> string" where
  "dec n = (if n < 10 then [digit n] else dec (n div 10) @ [digit (n mod 10)])"

definition num_str :: "int \<Rightarrow> string" where
  "num_str n = (if n < 0 then CHR ''-'' # dec (nat (- n)) else dec (nat n))"

text \<open>\<^verbatim>\<open>Buffer.toString()\<close>; a string is kept as the bytes of its UTF-8 form.\<close>

definition toString :: "byte list \<Rightarrow> string" where
  "toString b = map (\<lambda>x. char_of (unat x)) b"

section \<open>Tunnel (tunnel.js)\<close>

definition CMD_None :: int where "CMD_None = 0"
definition CMD_Ping :: int where "CMD_Ping = 1"
definition CMD_Pong :: int where "CMD_Pong = 2"
definition CMD_ReqBEGIN :: int where "CMD_ReqBEGIN = 3"
definition CMD_ReqData :: int where "CMD_ReqData = 3"
definition CMD_ReqCreated :: int where "CMD_ReqCreated = 4"
definition CMD_ReqClientClosed :: int where "CMD_ReqClientClosed = 5"
definition CMD_ReqClientFinished :: int where "CMD_ReqClientFinished = 6"
definition CMD_ReqServerFinished :: int where "CMD_ReqServerFinished = 7"
definition CMD_ReqServerClosed :: int where "CMD_ReqServerClosed = 8"
definition CMD_ReqRefreshQuota :: int where "CMD_ReqRefreshQuota = 9"
definition CMD_ReqEND :: int where "CMD_ReqEND = 10"

definition READY_STATE_OPEN :: nat where "READY_STATE_OPEN = 1"
definition READY_STATE_CLOSING :: nat where "READY_STATE_CLOSING = 2"
definition READY_STATE_CLOSED :: nat where "READY_STATE_CLOSED = 3"

text \<open>
  What a WebSocket message event carries: a string (kept as its UTF-8 bytes) or an
  \<^verbatim>\<open>ArrayBuffer\<close>.
\<close>

datatype ws_data = Text "byte list" | Binary "byte list"

text \<open>
  What the tunnel hands to \<^verbatim>\<open>WebSocket.send\<close>: bytes, or the nine bytes of a ping,
  which are the command byte and the IEEE double of a clock reading; the double is kept
  as the reading itself.
\<close>

datatype wsbuf = Raw "byte list" | PingBuf int

text \<open>
  A promise made by \<^verbatim>\<open>send\<close> is referred to by its position in the list of all
  promises made so far.  \<open>ResolveFn p\<close> and \<open>RejectFn p\<close> are the two functions the
  \<^verbatim>\<open>Promise\<close> constructor hands to its executor for promise \<open>p\<close>.
\<close>

datatype pstate = Pending | Fulfilled | Rejected

datatype jsfun = ResolveFn nat | RejectFn nat

datatype jsval = Fun jsfun | Undef

record sendBuf =
  buf :: wsbuf
  resolve :: jsfun
  reject :: jsfun

text \<open>
  The fields of a \<^verbatim>\<open>Tunnel\<close> come first.  The constructor does not set
  \<^verbatim>\<open>waitingPing\<close>.  After them come the objects the tunnel works on: the runtime's
  WebSocket (its \<^verbatim>\<open>readyState\<close> and the buffers its \<^verbatim>\<open>send\<close> has accepted, in
  order), the sockets and promises created so far, the activations of the
  asynchronous \<^verbatim>\<open>sendLoop\<close> that wait at its \<^verbatim>\<open>await\<close> (each with its local
  \<^verbatim>\<open>sendBufs\<close> and \<^verbatim>\<open>i\<close>), the keys of the manager's \<^verbatim>\<open>tunnels\<close>, and the lines
  written by the tunnel's \<^verbatim>\<open>console.log\<close> calls (the literal and the numbers
  printed after it).
\<close>

record tunnel =
  tunnel_id :: int
  reqCap :: int
  reqMgr :: reqmgr
  websocket :: "unit option"
  lastActivate :: int
  inSending :: bool
  sendBufs :: "sendBuf list"
  waitingPing :: jsnum
  ws_readyState :: nat
  ws_sent :: "wsbuf list"
  socks :: "socketb list"
  promises :: "pstate list"
  drainers :: "(sendBuf list \<times> nat) list"
  mgr_tunnels :: "int list"
  console :: "(string \<times> int list) list"

definition console_log :: "tunnel \<Rightarrow> string \<times> int list \<Rightarrow> tunnel" where
  "console_log t line = t\<lparr>console := console t @ [line]\<rparr>"

definition Tunnel_new :: "int list \<Rightarrow> int \<Rightarrow> int \<Rightarrow> int \<Rightarrow> tunnel" where
  "Tunnel_new keys i c now =
     \<lparr>tunnel_id = i, reqCap = c, reqMgr = ReqMgr_new c, websocket = Some (),
      lastActivate = now, inSending = False, sendBufs = [], waitingPing = Undefined,
      ws_readyState = READY_STATE_OPEN, ws_sent = [], socks = [], promises = [],
      drainers = [], mgr_tunnels = keys, console = []\<rparr>"

text \<open>
  \<^verbatim>\<open>TunMgr.fetch\<close> on an upgrade request: the accepted WebSocket gets a tunnel of
  capacity 100 under the next index.
\<close>

definition TunMgr_fetch :: "int list \<Rightarrow> int \<Rightarrow> int \<Rightarrow> tunnel" where
  "TunMgr_fetch keys index now = (Tunnel_new keys index 100 now)\<lparr>mgr_tunnels := keys @ [index]\<rparr>"

definition TunMgr_onTunnelClosed :: "tunnel \<Rightarrow> tunnel" where
  "TunMgr_onTunnelClosed t = t\<lparr>mgr_tunnels := removeAll (tunnel_id t) (mgr_tunnels t)\<rparr>"

definition Tunnel_isWebsocketValid :: "tunnel \<Rightarrow> bool" where
  "Tunnel_isWebsocketValid t = (websocket t \<noteq> None)"

text \<open>\<^verbatim>\<open>WebSocket.close()\<close> is taken not to throw; it leaves the socket closing.\<close>

definition Tunnel_close :: "tunnel \<Rightarrow> tunnel" where
  "Tunnel_close t =
     (if \<not> Tunnel_isWebsocketValid t then t
      else t\<lparr>ws_readyState := READY_STATE_CLOSING, websocket := None\<rparr>)"

text \<open>
  \<^verbatim>\<open>this.websocket.send(b)\<close>: \<^verbatim>\<open>TypeError\<close> when \<^verbatim>\<open>this.websocket\<close> is null, and when
  the WebSocket is no longer open.
\<close>

definition websocket_send :: "tunnel \<Rightarrow> wsbuf \<Rightarrow> error + tunnel" where
  "websocket_send t b =
     (case websocket t of
        None \<Rightarrow> Inl TypeError
      | Some w \<Rightarrow>
          if ws_readyState t = READY_STATE_OPEN then Inr (t\<lparr>ws_sent := ws_sent t @ [b]\<rparr>)
          else Inl TypeError)"

text \<open>
  \<^verbatim>\<open>callSendBufResolve\<close> evaluates \<^verbatim>\<open>sendBuf.resolve.resolve()\<close> inside a
  \<^verbatim>\<open>try\<close>: it reads the property \<^verbatim>\<open>resolve\<close> of the function
  \<^verbatim>\<open>sendBuf.resolve\<close> and calls what it has read.  Neither function of a promise
  has a property of that name, so the read gives \<^verbatim>\<open>undefined\<close>, and calling
  \<^verbatim>\<open>undefined\<close> raises \<^verbatim>\<open>TypeError\<close>.
\<close>

fun prop_resolve :: "jsfun \<Rightarrow> jsval" where
  "prop_resolve (ResolveFn p) = Undef"
| "prop_resolve (RejectFn p) = Undef"

fun js_call :: "jsval \<Rightarrow> pstate list \<Rightarrow> error + pstate list" where
  "js_call Undef ps = Inl TypeError"
| "js_call (Fun (ResolveFn p)) ps = Inr (if ps ! p = Pending then ps[p := Fulfilled] else ps)"
| "js_call (Fun (RejectFn p)) ps = Inr (if ps ! p = Pending then ps[p := Rejected] else ps)"

definition Tunnel_callSendBufResolve :: "tunnel \<Rightarrow> sendBuf \<Rightarrow> tunnel" where
  "Tunnel_callSendBufResolve t sb =
     (case js_call (prop_resolve (resolve sb)) (promises t) of
        Inl e \<Rightarrow> console_log t (''Tunnel.callSendBufResolve, resolve exception:'', [])
      | Inr ps \<Rightarrow> t\<lparr>promises := ps\<rparr>)"

subsection \<open>The outbound write serializer\<close>

text \<open>
  \<^verbatim>\<open>sendLoop\<close> is asynchronous.  It runs until its \<^verbatim>\<open>await\<close>, where the call
  \<^verbatim>\<open>this.websocket.send(sendBuf.buf)\<close> has been made and the activation is put aside
  with its local \<^verbatim>\<open>sendBufs\<close> and \<^verbatim>\<open>i\<close>; an exception of that call ends the
  activation through \<^verbatim>\<open>catch\<close> and \<^verbatim>\<open>finally\<close>.  \<open>sendLoop_resume\<close> continues an
  activation after the \<^verbatim>\<open>await\<close>.
\<close>

definition sendLoop_finally :: "tunnel \<Rightarrow> tunnel" where
  "sendLoop_finally t = t\<lparr>inSending := False\<rparr>"

definition sendLoop_body :: "tunnel \<Rightarrow> sendBuf list \<Rightarrow> nat \<Rightarrow> tunnel" where
  "sendLoop_body t snap i =
     (case websocket_send t (buf (snap ! i)) of
        Inl e \<Rightarrow> sendLoop_finally (console_log t (''Tunnel.sendLoop exception:'', []))
      | Inr t' \<Rightarrow> t'\<lparr>drainers := drainers t' @ [(snap, i)]\<rparr>)"

text \<open>
  The head of the \<^verbatim>\<open>while\<close> loop.  The \<^verbatim>\<open>for\<close> loop it enters starts at \<open>i = 0\<close>
  below a count that is not zero.
\<close>

definition sendLoop_while :: "tunnel \<Rightarrow> tunnel" where
  "sendLoop_while t =
     (if length (sendBufs t) > 0 then sendLoop_body (t\<lparr>sendBufs := []\<rparr>) (sendBufs t) 0
      else sendLoop_finally t)"

definition sendLoop_for :: "tunnel \<Rightarrow> sendBuf list \<Rightarrow> nat \<Rightarrow> tunnel" where
  "sendLoop_for t snap i =
     (if i < length snap then sendLoop_body t snap i else sendLoop_while t)"

definition Tunnel_sendLoop :: "tunnel \<Rightarrow> tunnel" where
  "Tunnel_sendLoop t = sendLoop_while (t\<lparr>inSending := True\<rparr>)"

definition sendLoop_resume :: "tunnel \<Rightarrow> nat \<Rightarrow> tunnel" where
  "sendLoop_resume t k =
     (if k < length (drainers t)
      then (case drainers t ! k of
              (snap, i) \<Rightarrow>
                sendLoop_for
                  (Tunnel_callSendBufResolve
                     (t\<lparr>drainers := take k (drainers t) @ drop (Suc k) (drainers t)\<rparr>)
                     (snap ! i))
                  snap (i + 1))
      else t)"

definition Tunnel_startSendLoop :: "tunnel \<Rightarrow> tunnel" where
  "Tunnel_startSendLoop t = (if inSending t then t else Tunnel_sendLoop t)"

definition Tunnel_pushSendRequest :: "tunnel \<Rightarrow> sendBuf \<Rightarrow> tunnel" where
  "Tunnel_pushSendRequest t sb = Tunnel_startSendLoop (t\<lparr>sendBufs := sendBufs t @ [sb]\<rparr>)"

text \<open>\<^verbatim>\<open>send\<close> returns a promise: one already fulfilled, or a new one.\<close>

definition Tunnel_send :: "tunnel \<Rightarrow> wsbuf \<Rightarrow> nat \<times> tunnel" where
  "Tunnel_send t b =
     (let p = length (promises t) in
      if \<not> Tunnel_isWebsocketValid t
      then (p, (console_log t (''Tunnel.send, websocket isn't valid, id:'', [tunnel_id t]))
                 \<lparr>promises := promises t @ [Fulfilled]\<rparr>)
      else if ws_readyState t \<noteq> READY_STATE_OPEN
      then (p, (console_log t (''Tunnel.send, websocket state isn't open, id:'', [tunnel_id t]))
                 \<lparr>promises := promises t @ [Fulfilled]\<rparr>)
      else (p, Tunnel_pushSendRequest (t\<lparr>promises := promises t @ [Pending]\<rparr>)
                 \<lparr>buf = b, resolve = ResolveFn p, reject = RejectFn p\<rparr>))"

subsection \<open>Keepalive and close\<close>

text \<open>
  \<^verbatim>\<open>sendPingMessage\<close> and \<^verbatim>\<open>sendPongMessage\<close> are asynchronous, called without
  \<^verbatim>\<open>await\<close>, and do nothing after their own \<^verbatim>\<open>await this.send\<close>; \<open>clock\<close> is the
  reading of \<^verbatim>\<open>Date.now()\<close> that the ping carries.
\<close>

definition Tunnel_sendPingMessage :: "tunnel \<Rightarrow> int \<Rightarrow> tunnel" where
  "Tunnel_sendPingMessage t clock = snd (Tunnel_send t (PingBuf clock))"

definition Tunnel_sendPongMessage :: "tunnel \<Rightarrow> byte list \<Rightarrow> tunnel" where
  "Tunnel_sendPongMessage t origin =
     (if origin = [] then t
      else snd (Tunnel_send t (Raw (origin[0 := word_of_int CMD_Pong]))))"

definition Tunnel_onPong :: "tunnel \<Rightarrow> tunnel" where
  "Tunnel_onPong t = t\<lparr>waitingPing := Num 0\<rparr>"

definition Tunnel_keepalive :: "tunnel \<Rightarrow> int \<Rightarrow> int \<Rightarrow> int \<Rightarrow> tunnel" where
  "Tunnel_keepalive t now throttle clock =
     (if js_gt (waitingPing t) 3 then Tunnel_close t
      else let th = now - lastActivate t in
           if th > throttle
           then (let t' = Tunnel_sendPingMessage t clock
                 in t'\<lparr>waitingPing := js_incr (waitingPing t')\<rparr>)
           else t)"

definition Tunnel_onClosed :: "tunnel \<Rightarrow> error option \<times> tunnel" where
  "Tunnel_onClosed t =
     (let t1 = fold (\<lambda>sb u. Tunnel_callSendBufResolve u sb) (sendBufs t) t;
          t2 = t1\<lparr>sendBufs := []\<rparr>
      in case ReqMgr_cleanup (socks t2) (reqMgr t2) of
           Inl e \<Rightarrow> (Some e, t2)
         | Inr (socks', rm') \<Rightarrow>
             (None, Tunnel_close (TunMgr_onTunnelClosed (t2\<lparr>reqMgr := rm', socks := socks'\<rparr>))))"

text \<open>The listener of the WebSocket's close event.\<close>

definition closeHandler :: "tunnel \<Rightarrow> error option \<times> tunnel" where
  "closeHandler t = Tunnel_onClosed (console_log t (''closeHandler, id:'', [tunnel_id t]))"

subsection \<open>Inbound frames\<close>

definition Tunnel_isRequestCmd :: "int \<Rightarrow> bool" where
  "Tunnel_isRequestCmd cmd = (cmd \<ge> CMD_ReqBEGIN \<and> cmd < CMD_ReqEND)"

text \<open>The text \<^verbatim>\<open>p8 + ":" + p7 + ... + ":" + p1\<close> of the IPv6 case.\<close>

definition ipv6_domain :: "int \<Rightarrow> int \<Rightarrow> int \<Rightarrow> int \<Rightarrow> int \<Rightarrow> int \<Rightarrow> int \<Rightarrow> int \<Rightarrow> string" where
  "ipv6_domain p1 p2 p3 p4 p5 p6 p7 p8 =
     num_str p8 @ '':'' @ num_str p7 @ '':'' @ num_str p6 @ '':'' @ num_str p5 @ '':'' @
     num_str p4 @ '':'' @ num_str p3 @ '':'' @ num_str p2 @ '':'' @ num_str p1"

text \<open>
  How the \<^verbatim>\<open>switch (addressType)\<close> of \<^verbatim>\<open>onRequestCreated\<close> is left: by \<^verbatim>\<open>break\<close> with
  \<^verbatim>\<open>domain\<close> and \<^verbatim>\<open>port\<close> set, or by the \<^verbatim>\<open>return\<close> of the \<^verbatim>\<open>default\<close> case.
  Case 0 evaluates \<^verbatim>\<open>message[4]\<close>, and the function binds no \<^verbatim>\<open>message\<close>.  Case 2 has
  no \<^verbatim>\<open>break\<close>: after it has set \<^verbatim>\<open>domain\<close> and \<^verbatim>\<open>port\<close>, control runs on into
  \<^verbatim>\<open>default\<close>.
\<close>

datatype switch_exit = Break string int | Default_return

definition address_switch :: "byte list \<Rightarrow> nat \<Rightarrow> int \<Rightarrow> error + switch_exit" where
  "address_switch databuf offset addressType =
     (if addressType = 0 then Inl ReferenceError
      else if addressType = 1 then
        sum_bind (readUInt8 databuf offset) (\<lambda>domainLen.
          let domain = toString (take (nat domainLen) (drop (offset + 1) databuf)) in
          sum_bind (readUInt16LE databuf (offset + 1 + nat domainLen)) (\<lambda>port.
            Inr (Break domain port)))
      else if addressType = 2 then
        sum_bind (readUInt16LE databuf offset) (\<lambda>p1.
        sum_bind (readUInt16LE databuf (offset + 2)) (\<lambda>p2.
        sum_bind (readUInt16LE databuf (offset + 4)) (\<lambda>p3.
        sum_bind (readUInt16LE databuf (offset + 6)) (\<lambda>p4.
        sum_bind (readUInt16LE databuf (offset + 8)) (\<lambda>p5.
        sum_bind (readUInt16LE databuf (offset + 10)) (\<lambda>p6.
        sum_bind (readUInt16LE databuf (offset + 12)) (\<lambda>p7.
        sum_bind (readUInt16LE databuf (offset + 14)) (\<lambda>p8.
          let domain = ipv6_domain p1 p2 p3 p4 p5 p6 p7 p8 in
          sum_bind (readUInt16LE databuf (offset + 16)) (\<lambda>port.
            Inr Default_return)))))))))
      else Inr Default_return)"

text \<open>
  When \<^verbatim>\<open>alloc\<close> returns null, the arguments of \<^verbatim>\<open>console.log\<close> name \<^verbatim>\<open>err\<close>, which
  is not bound either.
\<close>

definition Tunnel_onRequestCreated ::
  "tunnel \<Rightarrow> int \<Rightarrow> int \<Rightarrow> byte list \<Rightarrow> nat \<Rightarrow> error option \<times> tunnel" where
  "Tunnel_onRequestCreated t i tg databuf offset =
     (case readUInt8 databuf offset of
        Inl e \<Rightarrow> (Some e, t)
      | Inr addressType \<Rightarrow>
          (case address_switch databuf (offset + 1) addressType of
             Inl e \<Rightarrow> (Some e, t)
           | Inr Default_return \<Rightarrow>
               (None, console_log t (''onRequestCreated, unsupport addressType:'', [addressType]))
           | Inr (Break domain port) \<Rightarrow>
               (case ReqMgr_alloc (reqMgr t) i tg of
                  Inl e \<Rightarrow> (Some e, t)
                | Inr (None, rm') \<Rightarrow> (Some ReferenceError, t\<lparr>reqMgr := rm'\<rparr>)
                | Inr (Some r, rm') \<Rightarrow>
                    (case Request_proxy (socks t) (reqq rm' ! r) (domain @ '':'' @ num_str port) of
                       (socks', req') \<Rightarrow>
                         (None, t\<lparr>reqMgr := reqq_put rm' (int r) req', socks := socks'\<rparr>)))))"

definition Tunnel_onReqClientData ::
  "tunnel \<Rightarrow> int \<Rightarrow> int \<Rightarrow> byte list \<Rightarrow> nat \<Rightarrow> error option \<times> tunnel" where
  "Tunnel_onReqClientData t i tg databuf offset =
     (case ReqMgr_get (reqMgr t) i tg of
        Inl e \<Rightarrow> (Some e, t)
      | Inr None \<Rightarrow> (None, t)
      | Inr (Some r) \<Rightarrow>
          (case Request_onClientData (socks t) (reqq (reqMgr t) ! r) databuf offset of
             (e, socks') \<Rightarrow> (e, t\<lparr>socks := socks'\<rparr>)))"

definition Tunnel_onReqClientFinished :: "tunnel \<Rightarrow> int \<Rightarrow> int \<Rightarrow> error option \<times> tunnel" where
  "Tunnel_onReqClientFinished t i tg =
     (case ReqMgr_get (reqMgr t) i tg of
        Inl e \<Rightarrow> (Some e, t)
      | Inr None \<Rightarrow> (None, t)
      | Inr (Some r) \<Rightarrow>
          (None, t\<lparr>socks := Request_onClientFinished (socks t) (reqq (reqMgr t) ! r)\<rparr>))"

definition Tunnel_onReqClientClosed :: "tunnel \<Rightarrow> int \<Rightarrow> int \<Rightarrow> error option \<times> tunnel" where
  "Tunnel_onReqClientClosed t i tg =
     (case ReqMgr_free (socks t) (reqMgr t) i tg of
        Inl e \<Rightarrow> (Some e, t)
      | Inr (socks', rm') \<Rightarrow> (None, t\<lparr>reqMgr := rm', socks := socks'\<rparr>))"

definition Tunnel_onRequestMessage :: "tunnel \<Rightarrow> int \<Rightarrow> byte list \<Rightarrow> error option \<times> tunnel" where
  "Tunnel_onRequestMessage t cmd databuf =
     (case readUInt16LE databuf 1 of
        Inl e \<Rightarrow> (Some e, t)
      | Inr i \<Rightarrow>
          (case readUInt16LE databuf 3 of
             Inl e \<Rightarrow> (Some e, t)
           | Inr tg \<Rightarrow>
               if cmd = CMD_ReqCreated then Tunnel_onRequestCreated t i tg databuf 5
               else if cmd = CMD_ReqData then Tunnel_onReqClientData t i tg databuf 5
               else if cmd = CMD_ReqClientFinished then Tunnel_onReqClientFinished t i tg
               else if cmd = CMD_ReqClientClosed then Tunnel_onReqClientClosed t i tg
               else (None, console_log t
                       (''Tunnel.onRequestMessage, unknown cmd :'', [cmd, tunnel_id t, i, tg]))))"

text \<open>
  \<^verbatim>\<open>data.length < 1\<close>: a string's length is below 1 when it is empty; an
  \<^verbatim>\<open>ArrayBuffer\<close> has no \<^verbatim>\<open>length\<close>, and \<^verbatim>\<open>undefined < 1\<close> is false.
\<close>

fun length_below_1 :: "ws_data \<Rightarrow> bool" where
  "length_below_1 (Text s) = (s = [])"
| "length_below_1 (Binary b) = False"

fun Buffer_from :: "ws_data \<Rightarrow> byte list" where
  "Buffer_from (Text s) = s"
| "Buffer_from (Binary b) = b"

definition Tunnel_onTunnelMessage :: "tunnel \<Rightarrow> ws_data \<Rightarrow> error option \<times> tunnel" where
  "Tunnel_onTunnelMessage t data =
     (if length_below_1 data then (None, console_log t (''Tunnel got 0 length message'', []))
      else let databuf = Buffer_from data in
        case readUInt8 databuf 0 of
          Inl e \<Rightarrow> (Some e, t)
        | Inr cmd \<Rightarrow>
            if Tunnel_isRequestCmd cmd then Tunnel_onRequestMessage t cmd databuf
            else if cmd = CMD_None
              then (None, console_log t (''Tunnel.onTunnelMessage CMD_None, tunnel id:'', [tunnel_id t]))
            else if cmd = CMD_Ping then (None, Tunnel_sendPongMessage t databuf)
            else if cmd = CMD_Pong then (None, Tunnel_onPong t)
            else (None, console_log t
                    (''Tunnel.onTunnelMessage unknown cmd:'', [cmd, tunnel_id t])))"

text \<open>The listener of the WebSocket's message event; \<open>now\<close> is \<^verbatim>\<open>Date.now()\<close>.\<close>

definition messageHandler :: "tunnel \<Rightarrow> int \<Rightarrow> ws_data \<Rightarrow> error option \<times> tunnel" where
  "messageHandler t now data = Tunnel_onTunnelMessage (t\<lparr>lastActivate := now\<rparr>) data"

subsection \<open>Runs of the serializer\<close>

text \<open>
  Everything that reads or writes \<^verbatim>\<open>sendBufs\<close>, \<^verbatim>\<open>inSending\<close> or the WebSocket: a
  call of \<^verbatim>\<open>pushSendRequest\<close>, a waiting \<^verbatim>\<open>sendLoop\<close> activation going on, the close
  event, a call of \<^verbatim>\<open>close\<close>, and the WebSocket closing from the other side.  A run
  takes them in any order.
\<close>

datatype op = Push sendBuf | Resume nat | CloseEvent | Close | PeerClosed

fun step :: "tunnel \<Rightarrow> op \<Rightarrow> tunnel" where
  "step t (Push sb) = Tunnel_pushSendRequest t sb"
| "step t (Resume k) = sendLoop_resume t k"
| "step t CloseEvent = snd (closeHandler t)"
| "step t Close = Tunnel_close t"
| "step t PeerClosed = t\<lparr>ws_readyState := READY_STATE_CLOSED\<rparr>"

definition run :: "tunnel \<Rightarrow> op list \<Rightarrow> tunnel" where
  "run t ops = foldl step t ops"

fun pushed :: "op list \<Rightarrow> wsbuf list" where
  "pushed [] = []"
| "pushed (Push sb # ops) = buf sb # pushed ops"
| "pushed (x # ops) = pushed ops"

fun undisturbed :: "op \<Rightarrow> bool" where
  "undisturbed (Push sb) = True"
| "undisturbed (Resume k) = True"
| "undisturbed x = False"

text \<open>
  The entries not yet handed to the WebSocket: those a waiting activation still has
  after the one it awaits, then the queue.
\<close>

definition outstanding :: "tunnel \<Rightarrow> sendBuf list" where
  "outstanding t = concat (map (\<lambda>(snap, i). drop (Suc i) snap) (drainers t)) @ sendBufs t"

text \<open>
  What the serializer keeps: at most one \<^verbatim>\<open>sendLoop\<close> activation waits, one waits
  exactly when \<^verbatim>\<open>inSending\<close> is set, and it waits on an entry of its local array.
\<close>

definition serial_inv :: "tunnel \<Rightarrow> bool" where
  "serial_inv t =
     (length (drainers t) \<le> 1 \<and> (inSending t \<longleftrightarrow> drainers t \<noteq> []) \<and>
      list_all (\<lambda>(snap, i). i < length snap) (drainers t))"

definition ws_usable :: "tunnel \<Rightarrow> bool" where
  "ws_usable t = (websocket t \<noteq> None \<and> ws_readyState t = READY_STATE_OPEN)"

subsection \<open>The keepalive ticker\<close>

definition KEEPALIVE_INTERVAL :: int where "KEEPALIVE_INTERVAL = 10000"

text \<open>
  One round of the timer that \<^verbatim>\<open>TunMgr.fetch\<close> starts, for one tunnel: \<^verbatim>\<open>keepalive\<close>
  at the clock reading \<open>now\<close>, after which the waiting \<^verbatim>\<open>sendLoop\<close> goes on.
\<close>

definition TunMgr_tick :: "tunnel \<Rightarrow> int \<Rightarrow> tunnel" where
  "TunMgr_tick t now = sendLoop_resume (Tunnel_keepalive t now KEEPALIVE_INTERVAL now) 0"

text \<open>A tunnel that holds its WebSocket and has had no pong since it was made.\<close>

definition unanswered :: "tunnel \<Rightarrow> bool" where
  "unanswered t = (websocket t = Some () \<and> (waitingPing t = Undefined \<or> waitingPing t = NaN))"

section \<open>Scenarios\<close>

text \<open>Slot 0 as \<^verbatim>\<open>alloc(0, t)\<close> leaves it, with the socket reference \<open>s\<close>.\<close>

definition slot0 :: "int \<Rightarrow> nat option \<Rightarrow> request" where
  "slot0 t s = \<lparr>tag = t, inUsed = False, isUsed = Some True, idx = Some 0, socketb = s\<rparr>"

text \<open>The first tunnel of a manager, accepted at clock reading 1000.\<close>

definition tunnel0 :: tunnel where
  "tunnel0 = TunMgr_fetch [] 0 1000"

text \<open>
  \<^verbatim>\<open>ReqCreated\<close> frames for slot 0 with tag 7: IPv6 groups 1 to 8 and port 80, and
  IPv4 bytes 1 to 4 and port 80.
\<close>

definition frame_ipv6 :: "byte list" where
  "frame_ipv6 = [4, 0, 0, 7, 0, 2, 1, 0, 2, 0, 3, 0, 4, 0, 5, 0, 6, 0, 7, 0, 8, 0, 80, 0]"

definition frame_ipv4 :: "byte list" where
  "frame_ipv4 = [4, 0, 0, 7, 0, 0, 1, 2, 3, 4, 80, 0]"

text \<open>Six ticks, ten seconds apart, with nothing received in between.\<close>

definition silent_minute :: tunnel where
  "silent_minute =
     fold (\<lambda>now t. TunMgr_tick t now) [11001, 21001, 31001, 41001, 51001, 61001] tunnel0"

text \<open>
  Two frames handed to \<^verbatim>\<open>send\<close> while the WebSocket has not yet taken the first:
  the first is awaited by \<^verbatim>\<open>sendLoop\<close>, the second waits in \<^verbatim>\<open>sendBufs\<close>.
\<close>

definition two_sends :: tunnel where
  "two_sends = snd (Tunnel_send (snd (Tunnel_send tunnel0 (PingBuf 11001))) (Raw [8, 0, 0, 7, 0]))"

text \<open>A queue entry for a buffer, with the functions of promise \<open>p\<close>.\<close>

definition entry :: "wsbuf \<Rightarrow> nat \<Rightarrow> sendBuf" where
  "entry b p = \<lparr>buf = b, resolve = ResolveFn p, reject = RejectFn p\<rparr>"

section \<open>The request table\<close>

lemma table_ok_new: "table_ok (ReqMgr_new c)"
  by (simp add: table_ok_def ReqMgr_new_def Request_new_def list_all_iff)

lemma reqq_at_ok:
  "table_ok rm \<Longrightarrow> 0 \<le> i \<Longrightarrow> i < cap rm \<Longrightarrow>
   reqq_at rm i = Some (reqq rm ! nat i) \<and> \<not> inUsed (reqq rm ! nat i)"
  by (auto simp: table_ok_def reqq_at_def list_all_length)

lemma table_ok_put:
  "table_ok rm \<Longrightarrow> \<not> inUsed r \<Longrightarrow> table_ok (reqq_put rm i r)"
  by (auto simp: table_ok_def reqq_put_def list_all_iff dest: set_update_subset_insert[THEN subsetD])

lemma cap_new [simp]: "cap (ReqMgr_new c) = c"
  by (simp add: ReqMgr_new_def)

lemma cap_put [simp]: "cap (reqq_put rm i r) = cap rm"
  by (simp add: reqq_put_def)

lemma nth_put_same:
  "table_ok rm \<Longrightarrow> 0 \<le> i \<Longrightarrow> i < cap rm \<Longrightarrow> reqq (reqq_put rm i r) ! nat i = r"
  by (auto simp: table_ok_def reqq_put_def)

lemma alloc_in_range:
  "table_ok rm \<Longrightarrow> 0 \<le> i \<Longrightarrow> i < cap rm \<Longrightarrow>
   ReqMgr_alloc rm i t =
     Inr (Some (nat i), reqq_put rm i ((reqq rm ! nat i)\<lparr>tag := t, idx := Some i, isUsed := Some True\<rparr>))"
  using reqq_at_ok[of rm i] by (simp add: ReqMgr_alloc_def)

lemma Request_free_fields:
  "Request_free ss r = (ss', r') \<Longrightarrow>
   inUsed r' = inUsed r \<and> isUsed r' = isUsed r \<and> tag r' = tag r \<and> idx r' = idx r \<and> socketb r' = None"
  by (auto simp: Request_free_def split: option.splits)

lemma table_ok_alloc: "table_ok rm \<Longrightarrow> ReqMgr_alloc rm i t = Inr (res, rm') \<Longrightarrow> table_ok rm'"
  by (auto simp: ReqMgr_alloc_def split: if_splits option.splits intro: table_ok_put)

lemma table_ok_free: "table_ok rm \<Longrightarrow> ReqMgr_free ss rm i t = Inr (ss', rm') \<Longrightarrow> table_ok rm'"
  apply (auto simp: ReqMgr_free_def split: if_splits option.splits prod.splits)
  apply (rule table_ok_put, assumption)
  apply (drule Request_free_fields)
  apply (auto simp: reqq_at_def table_ok_def list_all_length split: if_splits)
  done

lemma cleanup_loop_noop:
  "table_ok rm \<Longrightarrow> \<forall>i \<in> set is. i < nat (cap rm) \<Longrightarrow> cleanup_loop is ss rm = Inr (ss, rm)"
  by (induction "is") (auto simp: reqq_at_def table_ok_def list_all_length)

lemma cleanup_noop: "table_ok rm \<Longrightarrow> ReqMgr_cleanup ss rm = Inr (ss, rm)"
  by (simp add: ReqMgr_cleanup_def cleanup_loop_noop)

lemma get_after_put:
  "table_ok rm \<Longrightarrow> 0 \<le> i \<Longrightarrow> i < cap rm \<Longrightarrow> \<not> inUsed r \<Longrightarrow>
   ReqMgr_get (reqq_put rm i r) i t =
     Inr (if truthy (isUsed r) \<and> tag r = t then Some (nat i) else None)"
  using reqq_at_ok[OF table_ok_put, of rm r i i] nth_put_same[of rm i r]
  by (simp add: ReqMgr_get_def)

text \<open>
  C1.  \<^verbatim>\<open>alloc\<close> on a slot that is in use.  On a new table of 100 slots,
  \<^verbatim>\<open>alloc(0, 5)\<close> returns slot 0 and \<^verbatim>\<open>get(0, 5)\<close> finds it in use; \<^verbatim>\<open>alloc(0, 9)\<close>
  then returns the slot again, not null, and its tag is 9: \<^verbatim>\<open>alloc\<close> tests
  \<^verbatim>\<open>inUsed\<close>, which no method ever sets, while the flag of a slot in use is
  \<^verbatim>\<open>isUsed\<close>.
\<close>

theorem alloc_on_slot_in_use:
  "ReqMgr_alloc (ReqMgr_new 100) 0 5 = Inr (Some 0, reqq_put (ReqMgr_new 100) 0 (slot0 5 None)) \<and>
   ReqMgr_get (reqq_put (ReqMgr_new 100) 0 (slot0 5 None)) 0 5 = Inr (Some 0) \<and>
   ReqMgr_alloc (reqq_put (ReqMgr_new 100) 0 (slot0 5 None)) 0 9 =
     Inr (Some 0, reqq_put (ReqMgr_new 100) 0 (slot0 9 None)) \<and>
   reqq_at (reqq_put (ReqMgr_new 100) 0 (slot0 9 None)) 0 = Some (slot0 9 None)"
  by code_simp

text \<open>
  C2.  \<^verbatim>\<open>cleanup\<close> with a slot in use.  Slot 0 is allocated with tag 5 and proxies
  to a socket.  \<^verbatim>\<open>cleanup()\<close> returns the table and the socket as they were: slot 0
  is still in use under tag 5 and \<^verbatim>\<open>close()\<close> has not been called on its socket.
  The loop tests \<^verbatim>\<open>inUsed\<close> where the flag of a slot in use is \<^verbatim>\<open>isUsed\<close>.
\<close>

theorem cleanup_leaves_slot_in_use:
  "Request_proxy [] (slot0 5 None) ''example.com:80'' =
     ([Socketb_new ''example.com:80''], slot0 5 (Some 0)) \<and>
   ReqMgr_cleanup [Socketb_new ''example.com:80''] (reqq_put (ReqMgr_new 100) 0 (slot0 5 (Some 0))) =
     Inr ([Socketb_new ''example.com:80''], reqq_put (ReqMgr_new 100) 0 (slot0 5 (Some 0))) \<and>
   ReqMgr_get (reqq_put (ReqMgr_new 100) 0 (slot0 5 (Some 0))) 0 5 = Inr (Some 0) \<and>
   sock (Socketb_new ''example.com:80'') =
     Some \<lparr>peer = ''example.com:80'', close_called = False, written = []\<rparr>"
  by code_simp

text \<open>
  C8.  After \<^verbatim>\<open>free(idx, tag)\<close> on a slot that is in range, in use and carries
  \<open>tag\<close>: \<^verbatim>\<open>free\<close> returns, \<^verbatim>\<open>get(idx, tag)\<close> with the old tag returns null, and
  \<^verbatim>\<open>alloc(idx, tag')\<close> returns the slot, in use under \<open>tag'\<close>, so that \<^verbatim>\<open>get\<close>
  finds it under \<open>tag'\<close>; when \<open>tag'\<close> differs from \<open>tag\<close>, \<^verbatim>\<open>get\<close> with the old
  tag is still null after the \<^verbatim>\<open>alloc\<close>.  The table is one the constructor and the
  methods can leave (\<open>table_ok\<close>).
\<close>

theorem free_then_get_and_alloc:
  assumes ok: "table_ok rm" and lo: "0 \<le> i" and hi: "i < cap rm"
    and used: "truthy (isUsed (reqq rm ! nat i))" and tg: "tag (reqq rm ! nat i) = t"
  shows "case ReqMgr_free ss rm i t of
           Inl e \<Rightarrow> False
         | Inr (ss', rm') \<Rightarrow>
             ReqMgr_get rm' i t = Inr None \<and>
             (case ReqMgr_alloc rm' i t' of
                Inr (Some r, rm'') \<Rightarrow>
                  r = nat i \<and> tag (reqq rm'' ! r) = t' \<and> isUsed (reqq rm'' ! r) = Some True \<and>
                  idx (reqq rm'' ! r) = Some i \<and> ReqMgr_get rm'' i t' = Inr (Some r) \<and>
                  (t' \<noteq> t \<longrightarrow> ReqMgr_get rm'' i t = Inr None)
              | _ \<Rightarrow> False)"
proof -
  let ?req = "(reqq rm ! nat i)\<lparr>tag := tag (reqq rm ! nat i) + 1, isUsed := Some False\<rparr>"
  obtain ss' req' where F: "Request_free ss ?req = (ss', req')"
    by (cases "Request_free ss ?req")
  from Request_free_fields[OF F]
  have req': "\<not> inUsed req'" "isUsed req' = Some False"
    using reqq_at_ok[OF ok lo hi] by simp_all
  let ?rm' = "reqq_put rm i req'"
  let ?new = "req'\<lparr>tag := t', idx := Some i, isUsed := Some True\<rparr>"
  have free: "ReqMgr_free ss rm i t = Inr (ss', ?rm')"
    using reqq_at_ok[OF ok lo hi] lo hi used tg F by (simp add: ReqMgr_free_def)
  have ok': "table_ok ?rm'"
    using ok req'(1) by (rule table_ok_put)
  have at': "reqq ?rm' ! nat i = req'"
    using ok lo hi by (rule nth_put_same)
  have get: "ReqMgr_get ?rm' i t = Inr None"
    using get_after_put[OF ok lo hi req'(1), of t] req'(2) by simp
  have alloc: "ReqMgr_alloc ?rm' i t' = Inr (Some (nat i), reqq_put ?rm' i ?new)"
    using alloc_in_range[OF ok' lo, of t'] hi at' by simp
  have at'': "reqq (reqq_put ?rm' i ?new) ! nat i = ?new"
    using ok' lo hi by (simp add: nth_put_same)
  have get'': "ReqMgr_get (reqq_put ?rm' i ?new) i u = Inr (if t' = u then Some (nat i) else None)" for u
    using get_after_put[OF ok' lo, of ?new u] hi req'(1) by simp
  from free get alloc at'' get'' show ?thesis by simp
qed

theorem free_then_get_and_alloc_witness:
  "table_ok (reqq_put (ReqMgr_new 100) 0 (slot0 5 (Some 0))) \<and>
   ReqMgr_get (reqq_put (ReqMgr_new 100) 0 (slot0 5 (Some 0))) 0 5 = Inr (Some 0) \<and>
   (case ReqMgr_free [Socketb_new ''a.b:80''] (reqq_put (ReqMgr_new 100) 0 (slot0 5 (Some 0))) 0 5 of
           Inl e \<Rightarrow> False
         | Inr (ss', rm') \<Rightarrow>
             ReqMgr_get rm' 0 5 = Inr None \<and>
             (case ReqMgr_alloc rm' 0 9 of
                Inr (Some r, rm'') \<Rightarrow>
                  r = nat 0 \<and> tag (reqq rm'' ! r) = 9 \<and> isUsed (reqq rm'' ! r) = Some True \<and>
                  idx (reqq rm'' ! r) = Some 0 \<and> ReqMgr_get rm'' 0 9 = Inr (Some r) \<and>
                  ReqMgr_get rm'' 0 5 = Inr None
              | _ \<Rightarrow> False))"
proof -
  let ?rm = "reqq_put (ReqMgr_new 100) 0 (slot0 5 (Some 0))"
  have ok: "table_ok ?rm"
    by (rule table_ok_put[OF table_ok_new]) (simp add: slot0_def)
  have c: "(0::int) < cap ?rm" by simp
  have at: "reqq ?rm ! nat 0 = slot0 5 (Some 0)"
    using nth_put_same[OF table_ok_new, of 0 100] by (simp add: ReqMgr_new_def)
  have u: "truthy (isUsed (reqq ?rm ! nat 0))" and g: "tag (reqq ?rm ! nat 0) = 5"
    using at by (simp_all add: slot0_def)
  have "ReqMgr_get ?rm 0 5 = Inr (Some 0)"
    using reqq_at_ok[OF ok _ c] at by (simp add: ReqMgr_get_def slot0_def)
  with ok free_then_get_and_alloc[OF ok _ c u g, where ss = "[Socketb_new ''a.b:80'']" and t' = 9]
  show ?thesis by (auto split: sum.splits prod.splits option.splits)
qed

text \<open>
  \<^verbatim>\<open>get(idx, tag)\<close> returns the slot exactly when \<open>idx\<close> is in range, the slot is in
  use and its tag is \<open>tag\<close>; otherwise it returns null.
\<close>

theorem get_returns_matching_slot:
  assumes ok: "table_ok rm"
  shows "ReqMgr_get rm i t =
     Inr (if 0 \<le> i \<and> i < cap rm \<and> truthy (isUsed (reqq rm ! nat i)) \<and> tag (reqq rm ! nat i) = t
          then Some (nat i) else None)"
proof (cases "0 \<le> i \<and> i < cap rm")
  case True
  then show ?thesis
    using reqq_at_ok[OF ok, of i] by (simp add: ReqMgr_get_def)
next
  case False
  then show ?thesis by (auto simp: ReqMgr_get_def)
qed

theorem get_returns_matching_slot_witness:
  "table_ok (reqq_put (ReqMgr_new 100) 0 (slot0 5 None)) \<and>
   ReqMgr_get (reqq_put (ReqMgr_new 100) 0 (slot0 5 None)) 0 5 = Inr (Some 0) \<and>
   ReqMgr_get (reqq_put (ReqMgr_new 100) 0 (slot0 5 None)) 0 6 = Inr None \<and>
   ReqMgr_get (reqq_put (ReqMgr_new 100) 0 (slot0 5 None)) 1 5 = Inr None \<and>
   ReqMgr_get (reqq_put (ReqMgr_new 100) 0 (slot0 5 None)) 100 5 = Inr None"
proof -
  let ?rm = "reqq_put (ReqMgr_new 100) 0 (slot0 5 None)"
  have ok: "table_ok ?rm"
    by (rule table_ok_put[OF table_ok_new]) (simp add: slot0_def)
  have at0: "reqq ?rm ! nat 0 = slot0 5 None"
    using nth_put_same[OF table_ok_new, of 0 100] by simp
  have at1: "reqq ?rm ! nat 1 = Request_new 1"
    by (simp add: reqq_put_def ReqMgr_new_def)
  from ok get_returns_matching_slot[OF ok, of 0 5] get_returns_matching_slot[OF ok, of 0 6]
    get_returns_matching_slot[OF ok, of 1 5] get_returns_matching_slot[OF ok, of 100 5] at0 at1
  show ?thesis by (simp add: slot0_def Request_new_def)
qed

section \<open>The egress socket\<close>

text \<open>
  C5.  \<^verbatim>\<open>write(chunk)\<close> on a socket just constructed, for any address and chunk:
  the chunk is appended to \<^verbatim>\<open>chunks2Send\<close>, and then \<^verbatim>\<open>startSendLoop\<close> raises
  \<^verbatim>\<open>ReferenceError\<close>.  No drainer is started (\<^verbatim>\<open>inSending\<close> stays false) and the
  stream is given nothing.
\<close>

theorem write_raises:
  "Socketb_write (Socketb_new address) chunk =
     (Some ReferenceError, (Socketb_new address)\<lparr>chunks2Send := [chunk]\<rparr>) \<and>
   \<not> sb_inSending (snd (Socketb_write (Socketb_new address) chunk)) \<and>
   sock (snd (Socketb_write (Socketb_new address) chunk)) =
     Some \<lparr>peer = address, close_called = False, written = []\<rparr>"
  by (simp add: Socketb_write_def Socketb_new_def Socketb_isClosed_def Socketb_startSendLoop_def
      STATE_CONNECTING_def STATE_CLOSED_def)

section \<open>Inbound frames\<close>

lemma tunnel_id_fetch [simp]: "tunnel_id (TunMgr_fetch keys i now) = i"
  by (simp add: TunMgr_fetch_def Tunnel_new_def)

text \<open>
  C10.  A frame whose command byte is 7 (\<^verbatim>\<open>ReqServerFinished\<close>), 8
  (\<^verbatim>\<open>ReqServerClosed\<close>) or 9 (\<^verbatim>\<open>ReqRefreshQuota\<close>) changes nothing of the tunnel but
  \<^verbatim>\<open>lastActivate\<close> and the console: the table, every slot, every socket, the queue
  and the WebSocket are as before.  When the frame holds \<open>idx\<close> and \<open>tag\<close> (four
  bytes after the command byte) the handler returns after logging the command, the
  tunnel id, \<open>idx\<close> and \<open>tag\<close>; a shorter frame ends the handler with
  \<^verbatim>\<open>RangeError\<close> and no log line.
\<close>

theorem server_only_commands_dropped:
  fixes t :: tunnel
  assumes frame: "Buffer_from data = c # rest"
    and cmd: "uint c = CMD_ReqServerFinished \<or> uint c = CMD_ReqServerClosed \<or> uint c = CMD_ReqRefreshQuota"
  shows "(snd (messageHandler t now data))\<lparr>console := console t\<rparr> = t\<lparr>lastActivate := now\<rparr> \<and>
    (4 \<le> length rest \<longrightarrow>
       messageHandler t now data =
         (None, console_log (t\<lparr>lastActivate := now\<rparr>)
            (''Tunnel.onRequestMessage, unknown cmd :'',
             [uint c, tunnel_id t, uint (rest ! 0) + 256 * uint (rest ! 1),
              uint (rest ! 2) + 256 * uint (rest ! 3)]))) \<and>
    (length rest < 4 \<longrightarrow> messageHandler t now data = (Some RangeError, t\<lparr>lastActivate := now\<rparr>))"
proof -
  have nz: "\<not> length_below_1 data"
    using frame by (cases data) auto
  have rq: "Tunnel_isRequestCmd (uint c)"
    using cmd by (auto simp: Tunnel_isRequestCmd_def CMD_ReqServerFinished_def CMD_ReqServerClosed_def
        CMD_ReqRefreshQuota_def CMD_ReqBEGIN_def CMD_ReqEND_def)
  have other: "uint c \<noteq> CMD_ReqCreated" "uint c \<noteq> CMD_ReqData" "uint c \<noteq> CMD_ReqClientFinished"
      "uint c \<noteq> CMD_ReqClientClosed"
    using cmd by (auto simp: CMD_ReqServerFinished_def CMD_ReqServerClosed_def
        CMD_ReqRefreshQuota_def CMD_ReqCreated_def CMD_ReqData_def CMD_ReqClientFinished_def
        CMD_ReqClientClosed_def)
  have m: "messageHandler t now data = Tunnel_onRequestMessage (t\<lparr>lastActivate := now\<rparr>) (uint c) (c # rest)"
    using nz rq frame by (simp add: messageHandler_def Tunnel_onTunnelMessage_def readUInt8_def)
  show ?thesis
  proof (cases "4 \<le> length rest")
    case True
    then have "readUInt16LE (c # rest) 1 = Inr (uint (rest ! 0) + 256 * uint (rest ! 1))"
      and "readUInt16LE (c # rest) 3 = Inr (uint (rest ! 2) + 256 * uint (rest ! 3))"
      by (simp_all add: readUInt16LE_def)
    with True other show ?thesis
      by (simp add: m Tunnel_onRequestMessage_def console_log_def)
  next
    case False
    then have "readUInt16LE (c # rest) 1 = Inl RangeError \<or> readUInt16LE (c # rest) 3 = Inl RangeError"
      by (auto simp: readUInt16LE_def)
    with False show ?thesis
      by (auto simp: m Tunnel_onRequestMessage_def readUInt16LE_def split: sum.splits if_splits)
  qed
qed

theorem server_only_commands_dropped_witness:
  "messageHandler tunnel0 2000 (Binary [8, 1, 0, 7, 0]) =
     (None, console_log (tunnel0\<lparr>lastActivate := 2000\<rparr>)
        (''Tunnel.onRequestMessage, unknown cmd :'', [8, 0, 1, 7])) \<and>
   (snd (messageHandler tunnel0 2000 (Binary [8, 1, 0, 7, 0])))
     \<lparr>console := console tunnel0\<rparr> = tunnel0\<lparr>lastActivate := 2000\<rparr>"
  using server_only_commands_dropped[of "Binary [8, 1, 0, 7, 0]" 8 "[1, 0, 7, 0]" "tunnel0" 2000]
  by (simp add: CMD_ReqServerClosed_def console_log_def tunnel0_def)

text \<open>
  C10, the frame that does not fit.  The one-byte frame 7 is not logged: reading
  \<open>idx\<close> raises \<^verbatim>\<open>RangeError\<close>, and the console is as before.
\<close>

theorem short_server_frame_raises:
  "messageHandler tunnel0 2000 (Binary [7]) = (Some RangeError, tunnel0\<lparr>lastActivate := 2000\<rparr>) \<and>
   console (snd (messageHandler tunnel0 2000 (Binary [7]))) = console tunnel0"
  by code_simp

text \<open>
  C6.  A \<^verbatim>\<open>ReqCreated\<close> frame with address type 2.  For slot 0, tag 7, groups 1 to 8
  and port 80 the handler builds the text \<open>8:7:6:5:4:3:2:1\<close> and reads the port, then
  runs into the \<^verbatim>\<open>default\<close> case: it logs the address type as unsupported and
  returns.  No slot is allocated (\<^verbatim>\<open>get(0, 7)\<close> is null, the table is the new
  table) and no socket is created.
\<close>

theorem ipv6_request_not_created:
  "messageHandler tunnel0 2000 (Binary frame_ipv6) =
     (None, console_log (tunnel0\<lparr>lastActivate := 2000\<rparr>)
        (''onRequestCreated, unsupport addressType:'', [2])) \<and>
   ipv6_domain 1 2 3 4 5 6 7 8 = ''8:7:6:5:4:3:2:1'' \<and>
   reqMgr (snd (messageHandler tunnel0 2000 (Binary frame_ipv6))) = ReqMgr_new 100 \<and>
   ReqMgr_get (reqMgr (snd (messageHandler tunnel0 2000 (Binary frame_ipv6)))) 0 7 = Inr None \<and>
   socks (snd (messageHandler tunnel0 2000 (Binary frame_ipv6))) = []"
  by code_simp

text \<open>
  C7.  A \<^verbatim>\<open>ReqCreated\<close> frame with address type 0.  For slot 0, tag 7, bytes 1 to 4
  and port 80 the handler ends with \<^verbatim>\<open>ReferenceError\<close>: the only change is
  \<^verbatim>\<open>lastActivate\<close>.  No address text is built, no slot is allocated and no socket is
  created.
\<close>

theorem ipv4_request_raises:
  "messageHandler tunnel0 2000 (Binary frame_ipv4) =
     (Some ReferenceError, tunnel0\<lparr>lastActivate := 2000\<rparr>) \<and>
   ReqMgr_get (reqMgr (snd (messageHandler tunnel0 2000 (Binary frame_ipv4)))) 0 7 = Inr None \<and>
   socks (snd (messageHandler tunnel0 2000 (Binary frame_ipv4))) = []"
  by code_simp

section \<open>The outbound write serializer\<close>

text \<open>
  Along a run, the buffers handed to the WebSocket followed by those outstanding are
  always a subsequence of the buffers pushed, in the order of the pushes.
\<close>

lemma resolve_keeps [simp]:
  "websocket (Tunnel_callSendBufResolve t sb) = websocket t"
  "ws_readyState (Tunnel_callSendBufResolve t sb) = ws_readyState t"
  "ws_sent (Tunnel_callSendBufResolve t sb) = ws_sent t"
  "sendBufs (Tunnel_callSendBufResolve t sb) = sendBufs t"
  "inSending (Tunnel_callSendBufResolve t sb) = inSending t"
  "drainers (Tunnel_callSendBufResolve t sb) = drainers t"
  by (simp_all add: Tunnel_callSendBufResolve_def console_log_def split: sum.splits)

lemma body_ok:
  "ws_usable t \<Longrightarrow>
   sendLoop_body t snap i = t\<lparr>ws_sent := ws_sent t @ [buf (snap ! i)], drainers := drainers t @ [(snap, i)]\<rparr>"
  by (auto simp: ws_usable_def sendLoop_body_def websocket_send_def)

lemma body_fail:
  "\<not> ws_usable t \<Longrightarrow>
   sendLoop_body t snap i = (console_log t (''Tunnel.sendLoop exception:'', []))\<lparr>inSending := False\<rparr>"
  by (auto simp: ws_usable_def sendLoop_body_def websocket_send_def sendLoop_finally_def split: option.splits)

lemma pushed_append: "pushed (xs @ ys) = pushed xs @ pushed ys"
  by (induction xs rule: pushed.induct) simp_all

lemma run_snoc: "run t (ops @ [x]) = step (run t ops) x"
  by (simp add: run_def)

lemma subseq_snoc: "subseq xs ys \<Longrightarrow> subseq (xs @ [a]) (ys @ [a])"
  by (simp add: list_emb_append_mono)

lemma subseq_drop_mid: "subseq (xs @ ys @ zs) ps \<Longrightarrow> subseq (xs @ zs) ps"
  by (meson list_emb_append_mono subseq_order.order_refl subseq_order.order_trans list_emb_append2 list_emb_Nil)

lemma subseq_drop_tail: "subseq (xs @ ys) ps \<Longrightarrow> subseq xs ps"
  using subseq_drop_mid[of xs ys "[]" ps] by simp

lemma subseq_grow: "subseq xs ys \<Longrightarrow> subseq xs (ys @ zs)"
  by (rule list_emb_prefix)

lemma push_order:
  assumes inv: "serial_inv t" and sub: "subseq (ws_sent t @ map buf (outstanding t)) ps"
  shows "serial_inv (Tunnel_pushSendRequest t sb) \<and>
     subseq (ws_sent (Tunnel_pushSendRequest t sb) @ map buf (outstanding (Tunnel_pushSendRequest t sb)))
       (ps @ [buf sb])"
proof (cases "inSending t")
  case True
  then show ?thesis
    using inv subseq_snoc[OF sub, of "buf sb"]
    by (simp add: Tunnel_pushSendRequest_def Tunnel_startSendLoop_def serial_inv_def outstanding_def)
next
  case False
  with inv have d: "drainers t = []" by (simp add: serial_inv_def)
  then have out: "outstanding t = sendBufs t" by (simp add: outstanding_def)
  let ?u = "t\<lparr>inSending := True, sendBufs := []\<rparr>"
  have e: "Tunnel_pushSendRequest t sb = sendLoop_body ?u (sendBufs t @ [sb]) 0"
    using False by (simp add: Tunnel_pushSendRequest_def Tunnel_startSendLoop_def Tunnel_sendLoop_def
        sendLoop_while_def)
  show ?thesis
  proof (cases "ws_usable ?u")
    case True
    have "(sendBufs t @ [sb]) ! 0 # drop (Suc 0) (sendBufs t @ [sb]) = sendBufs t @ [sb]"
      by (cases "sendBufs t") simp_all
    then have "buf ((sendBufs t @ [sb]) ! 0) # map buf (drop (Suc 0) (sendBufs t @ [sb]))
        = map buf (sendBufs t) @ [buf sb]"
      by (metis list.simps(9) map_append list.map(1))
    with True d show ?thesis
      using subseq_snoc[OF sub, of "buf sb"] out
      by (simp add: e body_ok serial_inv_def outstanding_def)
  next
    case False
    with d show ?thesis
      using subseq_grow[OF subseq_drop_tail[OF sub], of "[buf sb]"]
      by (simp add: e body_fail serial_inv_def outstanding_def console_log_def)
  qed
qed

lemma resume_order:
  assumes inv: "serial_inv t" and sub: "subseq (ws_sent t @ map buf (outstanding t)) ps"
  shows "serial_inv (sendLoop_resume t k) \<and>
     subseq (ws_sent (sendLoop_resume t k) @ map buf (outstanding (sendLoop_resume t k))) ps"
proof (cases "k < length (drainers t)")
  case False
  with inv sub show ?thesis by (simp add: sendLoop_resume_def)
next
  case True
  with inv obtain snap i where d: "drainers t = [(snap, i)]" and k: "k = 0" and i: "i < length snap"
    by (cases "drainers t") (auto simp: serial_inv_def)
  let ?u = "Tunnel_callSendBufResolve (t\<lparr>drainers := []\<rparr>) (snap ! i)"
  have e: "sendLoop_resume t k = sendLoop_for ?u snap (i + 1)"
    using d k by (simp add: sendLoop_resume_def)
  have sub': "subseq (ws_sent t @ map buf (drop (Suc i) snap) @ map buf (sendBufs t)) ps"
    using sub d by (simp add: outstanding_def)
  have ins: "inSending t"
    using inv d by (simp add: serial_inv_def)
  have use: "ws_usable ?u = ws_usable t" by (simp add: ws_usable_def)
  show ?thesis
  proof (cases "Suc i < length snap")
    case inner: True
    show ?thesis
    proof (cases "ws_usable t")
      case True
      have "drop (Suc i) snap = snap ! Suc i # drop (Suc (Suc i)) snap"
        using inner by (simp add: Cons_nth_drop_Suc)
      with True inner sub' ins show ?thesis
        by (simp add: e sendLoop_for_def body_ok use serial_inv_def outstanding_def)
    next
      case False
      with inner show ?thesis
        using subseq_drop_mid[OF sub']
        by (simp add: e sendLoop_for_def body_fail use serial_inv_def outstanding_def console_log_def)
    qed
  next
    case last: False
    then have nil: "drop (Suc i) snap = []" by simp
    show ?thesis
    proof (cases "sendBufs t")
      case Nil
      with last sub' show ?thesis
        by (simp add: e sendLoop_for_def sendLoop_while_def sendLoop_finally_def serial_inv_def
            outstanding_def nil)
    next
      case (Cons q qs)
      have w: "ws_usable (?u\<lparr>sendBufs := []\<rparr>) = ws_usable t" by (simp add: ws_usable_def)
      have e2: "sendLoop_resume t k = sendLoop_body (?u\<lparr>sendBufs := []\<rparr>) (q # qs) 0"
        using last Cons by (simp add: e sendLoop_for_def sendLoop_while_def)
      show ?thesis
      proof (cases "ws_usable t")
        case True
        with sub' ins show ?thesis
          by (simp add: e2 body_ok w serial_inv_def outstanding_def nil Cons)
      next
        case False
        then show ?thesis
          using subseq_drop_tail[of "ws_sent t" "map buf (drop (Suc i) snap) @ map buf (sendBufs t)" ps] sub'
          by (simp add: e2 body_fail w serial_inv_def outstanding_def console_log_def)
      qed
    qed
  qed
qed

lemma fold_resolve_keeps [simp]:
  "websocket (fold (\<lambda>sb u. Tunnel_callSendBufResolve u sb) sbs t) = websocket t"
  "ws_readyState (fold (\<lambda>sb u. Tunnel_callSendBufResolve u sb) sbs t) = ws_readyState t"
  "ws_sent (fold (\<lambda>sb u. Tunnel_callSendBufResolve u sb) sbs t) = ws_sent t"
  "inSending (fold (\<lambda>sb u. Tunnel_callSendBufResolve u sb) sbs t) = inSending t"
  "drainers (fold (\<lambda>sb u. Tunnel_callSendBufResolve u sb) sbs t) = drainers t"
  by (induction sbs arbitrary: t) simp_all

lemma close_keeps [simp]:
  "ws_sent (Tunnel_close t) = ws_sent t"
  "sendBufs (Tunnel_close t) = sendBufs t"
  "inSending (Tunnel_close t) = inSending t"
  "drainers (Tunnel_close t) = drainers t"
  by (simp_all add: Tunnel_close_def)

lemma closeHandler_keeps:
  "ws_sent (snd (closeHandler t)) = ws_sent t"
  "sendBufs (snd (closeHandler t)) = []"
  "inSending (snd (closeHandler t)) = inSending t"
  "drainers (snd (closeHandler t)) = drainers t"
  by (simp_all add: closeHandler_def Tunnel_onClosed_def Let_def TunMgr_onTunnelClosed_def
      console_log_def split: sum.splits prod.splits)

lemma step_order:
  assumes inv: "serial_inv t" and sub: "subseq (ws_sent t @ map buf (outstanding t)) ps"
  shows "serial_inv (step t x) \<and>
     subseq (ws_sent (step t x) @ map buf (outstanding (step t x))) (ps @ pushed [x])"
proof (cases x)
  case (Push sb)
  then show ?thesis using push_order[OF inv sub] by simp
next
  case (Resume k)
  then show ?thesis using resume_order[OF inv sub] by simp
next
  case CloseEvent
  have "subseq (ws_sent t @ concat (map (\<lambda>(snap, i). map buf (drop (Suc i) snap)) (drainers t))) ps"
    using subseq_drop_tail[of "ws_sent t @ concat (map (\<lambda>(snap, i). map buf (drop (Suc i) snap)) (drainers t))"
        "map buf (sendBufs t)" ps] sub
    by (simp add: outstanding_def map_concat comp_def case_prod_unfold)
  with CloseEvent inv show ?thesis
    by (simp add: closeHandler_keeps serial_inv_def outstanding_def map_concat comp_def case_prod_unfold)
next
  case Close
  with inv sub show ?thesis by (simp add: serial_inv_def outstanding_def)
next
  case PeerClosed
  with inv sub show ?thesis by (simp add: serial_inv_def outstanding_def)
qed

lemma run_order:
  "serial_inv t \<Longrightarrow> subseq (ws_sent t @ map buf (outstanding t)) ps \<Longrightarrow>
   serial_inv (run t ops) \<and>
   subseq (ws_sent (run t ops) @ map buf (outstanding (run t ops))) (ps @ pushed ops)"
proof (induction ops rule: rev_induct)
  case Nil
  then show ?case by (simp add: run_def)
next
  case (snoc x ops)
  then show ?case
    using step_order[of "run t ops" "ps @ pushed ops" x]
    by (simp add: run_snoc pushed_append)
qed

text \<open>
  While the WebSocket stays usable and nothing but pushes and resumptions happens, no
  entry is lost, and an idle serializer has an empty queue.
\<close>

lemma push_exact:
  assumes inv: "serial_inv t" and use: "ws_usable t"
    and eq: "ws_sent t @ map buf (outstanding t) = ps" and idle: "\<not> inSending t \<longrightarrow> sendBufs t = []"
  shows "ws_usable (Tunnel_pushSendRequest t sb) \<and>
     ws_sent (Tunnel_pushSendRequest t sb) @ map buf (outstanding (Tunnel_pushSendRequest t sb)) = ps @ [buf sb] \<and>
     (\<not> inSending (Tunnel_pushSendRequest t sb) \<longrightarrow> sendBufs (Tunnel_pushSendRequest t sb) = [])"
proof (cases "inSending t")
  case True
  with use eq show ?thesis
    by (auto simp: Tunnel_pushSendRequest_def Tunnel_startSendLoop_def ws_usable_def outstanding_def)
next
  case False
  with inv have d: "drainers t = []" by (simp add: serial_inv_def)
  from False idle have q: "sendBufs t = []" by simp
  let ?u = "t\<lparr>inSending := True, sendBufs := []\<rparr>"
  have e: "Tunnel_pushSendRequest t sb = sendLoop_body ?u [sb] 0"
    using False q by (simp add: Tunnel_pushSendRequest_def Tunnel_startSendLoop_def Tunnel_sendLoop_def
        sendLoop_while_def)
  have u: "ws_usable ?u" using use by (simp add: ws_usable_def)
  from eq d q have "ws_sent t = ps" by (simp add: outstanding_def)
  then show ?thesis
    using d use by (simp add: e body_ok[OF u] outstanding_def ws_usable_def)
qed

lemma resume_exact:
  assumes inv: "serial_inv t" and use: "ws_usable t"
    and eq: "ws_sent t @ map buf (outstanding t) = ps" and idle: "\<not> inSending t \<longrightarrow> sendBufs t = []"
  shows "ws_usable (sendLoop_resume t k) \<and>
     ws_sent (sendLoop_resume t k) @ map buf (outstanding (sendLoop_resume t k)) = ps \<and>
     (\<not> inSending (sendLoop_resume t k) \<longrightarrow> sendBufs (sendLoop_resume t k) = [])"
proof (cases "k < length (drainers t)")
  case False
  with use eq idle show ?thesis by (simp add: sendLoop_resume_def)
next
  case True
  with inv obtain snap i where d: "drainers t = [(snap, i)]" and k: "k = 0" and i: "i < length snap"
    by (cases "drainers t") (auto simp: serial_inv_def)
  let ?u = "Tunnel_callSendBufResolve (t\<lparr>drainers := []\<rparr>) (snap ! i)"
  have e: "sendLoop_resume t k = sendLoop_for ?u snap (i + 1)"
    using d k by (simp add: sendLoop_resume_def)
  have eq': "ws_sent t @ map buf (drop (Suc i) snap) @ map buf (sendBufs t) = ps"
    using eq d by (simp add: outstanding_def)
  have ins: "inSending t"
    using inv d by (simp add: serial_inv_def)
  have u: "ws_usable ?u" using use by (simp add: ws_usable_def)
  show ?thesis
  proof (cases "Suc i < length snap")
    case inner: True
    have "drop (Suc i) snap = snap ! Suc i # drop (Suc (Suc i)) snap"
      using inner by (simp add: Cons_nth_drop_Suc)
    with inner eq' ins use show ?thesis
      by (simp add: e sendLoop_for_def body_ok[OF u] outstanding_def ws_usable_def)
  next
    case last: False
    then have nil: "drop (Suc i) snap = []" by simp
    show ?thesis
    proof (cases "sendBufs t")
      case Nil
      with last eq' use show ?thesis
        by (simp add: e sendLoop_for_def sendLoop_while_def sendLoop_finally_def
            outstanding_def nil ws_usable_def)
    next
      case (Cons q qs)
      have w: "ws_usable (?u\<lparr>sendBufs := []\<rparr>)" using use by (simp add: ws_usable_def)
      have e2: "sendLoop_resume t k = sendLoop_body (?u\<lparr>sendBufs := []\<rparr>) (q # qs) 0"
        using last Cons by (simp add: e sendLoop_for_def sendLoop_while_def)
      from eq' ins use show ?thesis
        by (simp add: e2 body_ok[OF w] outstanding_def nil Cons ws_usable_def)
    qed
  qed
qed

lemma run_exact:
  "serial_inv t \<Longrightarrow> ws_usable t \<Longrightarrow> ws_sent t @ map buf (outstanding t) = ps \<Longrightarrow>
   (\<not> inSending t \<longrightarrow> sendBufs t = []) \<Longrightarrow> list_all undisturbed ops \<Longrightarrow>
   ws_usable (run t ops) \<and>
   ws_sent (run t ops) @ map buf (outstanding (run t ops)) = ps @ pushed ops \<and>
   (\<not> inSending (run t ops) \<longrightarrow> sendBufs (run t ops) = [])"
proof (induction ops rule: rev_induct)
  case Nil
  then show ?case by (simp add: run_def)
next
  case (snoc x ops)
  then have ih: "ws_usable (run t ops)"
      "ws_sent (run t ops) @ map buf (outstanding (run t ops)) = ps @ pushed ops"
      "\<not> inSending (run t ops) \<longrightarrow> sendBufs (run t ops) = []"
    by simp_all
  have inv: "serial_inv (run t ops)"
    using run_order[OF snoc.prems(1), of "ws_sent t @ map buf (outstanding t)" ops] by simp
  from snoc.prems(5) have "undisturbed x" by simp
  then show ?case
  proof (cases x)
    case (Push sb)
    then show ?thesis
      using push_exact[OF inv ih, of sb] by (simp add: run_snoc pushed_append)
  next
    case (Resume k)
    then show ?thesis
      using resume_exact[OF inv ih, of k] by (simp add: run_snoc pushed_append)
  qed simp_all
qed

lemma new_serial: "serial_inv (Tunnel_new keys i c now)"
  "ws_usable (Tunnel_new keys i c now)"
  "ws_sent (Tunnel_new keys i c now) = []"
  "outstanding (Tunnel_new keys i c now) = []"
  "\<not> inSending (Tunnel_new keys i c now)"
  "sendBufs (Tunnel_new keys i c now) = []"
  by (simp_all add: Tunnel_new_def serial_inv_def ws_usable_def outstanding_def)

text \<open>
  C9.  Sends follow the order of enqueueing.  From a new tunnel, after any run of
  pushes, resumptions of \<^verbatim>\<open>sendLoop\<close>, close events, calls of \<^verbatim>\<open>close\<close> and
  closings by the peer, in any order: at most one \<^verbatim>\<open>sendLoop\<close> activation exists,
  and one exists exactly when \<^verbatim>\<open>inSending\<close> is set; the buffers the WebSocket has
  been handed are a subsequence of the buffers pushed, in the order of the pushes.
  When the run consists of pushes and resumptions only, the buffers handed over
  followed by those outstanding are exactly the buffers pushed, and once the
  serializer is idle the buffers handed over are exactly the buffers pushed.
\<close>

theorem sends_in_enqueue_order:
  "length (drainers (run (Tunnel_new keys i c now) ops)) \<le> 1 \<and>
   (inSending (run (Tunnel_new keys i c now) ops) \<longleftrightarrow> drainers (run (Tunnel_new keys i c now) ops) \<noteq> []) \<and>
   subseq (ws_sent (run (Tunnel_new keys i c now) ops)) (pushed ops) \<and>
   (list_all undisturbed ops \<longrightarrow>
      ws_sent (run (Tunnel_new keys i c now) ops) @
        map buf (outstanding (run (Tunnel_new keys i c now) ops)) = pushed ops \<and>
      (\<not> inSending (run (Tunnel_new keys i c now) ops) \<longrightarrow>
         ws_sent (run (Tunnel_new keys i c now) ops) = pushed ops))"
proof -
  let ?t = "Tunnel_new keys i c now"
  have o: "serial_inv (run ?t ops) \<and>
      subseq (ws_sent (run ?t ops) @ map buf (outstanding (run ?t ops))) (pushed ops)"
    using run_order[OF new_serial(1), of keys i c now "[]" ops] by (simp add: new_serial)
  then have s: "subseq (ws_sent (run ?t ops)) (pushed ops)"
    using subseq_drop_tail by blast
  have x: "ws_sent (run ?t ops) @ map buf (outstanding (run ?t ops)) = pushed ops \<and>
      (\<not> inSending (run ?t ops) \<longrightarrow> ws_sent (run ?t ops) = pushed ops)"
    if u: "list_all undisturbed ops"
  proof -
    from run_exact[OF new_serial(1) new_serial(2) _ _ u, of keys i c now "[]"]
    have e: "ws_sent (run ?t ops) @ map buf (outstanding (run ?t ops)) = pushed ops"
      and q: "\<not> inSending (run ?t ops) \<longrightarrow> sendBufs (run ?t ops) = []"
      by (simp_all add: new_serial)
    from o have "\<not> inSending (run ?t ops) \<longrightarrow> drainers (run ?t ops) = []"
      by (simp add: serial_inv_def)
    with q have "\<not> inSending (run ?t ops) \<longrightarrow> outstanding (run ?t ops) = []"
      by (simp add: outstanding_def)
    with e show ?thesis by auto
  qed
  from o s x show ?thesis by (simp add: serial_inv_def)
qed

theorem sends_in_enqueue_order_witness:
  "list_all undisturbed [Push (entry (PingBuf 5) 0), Push (entry (Raw [8, 0, 0, 7, 0]) 1), Resume 0, Resume 0] \<and>
   \<not> inSending (run (Tunnel_new [] 0 100 1000) [Push (entry (PingBuf 5) 0), Push (entry (Raw [8, 0, 0, 7, 0]) 1), Resume 0, Resume 0]) \<and>
   ws_sent (run (Tunnel_new [] 0 100 1000) [Push (entry (PingBuf 5) 0), Push (entry (Raw [8, 0, 0, 7, 0]) 1), Resume 0, Resume 0])
     = [PingBuf 5, Raw [8, 0, 0, 7, 0]]"
proof -
  let ?ops = "[Push (entry (PingBuf 5) 0), Push (entry (Raw [8, 0, 0, 7, 0]) 1), Resume 0, Resume 0]"
  have u: "list_all undisturbed ?ops" by simp
  have i: "\<not> inSending (run (Tunnel_new [] 0 100 1000) ?ops)" by code_simp
  have p: "pushed ?ops = [PingBuf 5, Raw [8, 0, 0, 7, 0]]" by (simp add: entry_def)
  from sends_in_enqueue_order[of "[]" 0 100 1000 ?ops] u i p show ?thesis by simp
qed

section \<open>Keepalive and close\<close>

lemma resolve_keeps_ping [simp]:
  "waitingPing (Tunnel_callSendBufResolve t sb) = waitingPing t"
  by (simp add: Tunnel_callSendBufResolve_def console_log_def split: sum.splits)

lemma body_keeps [simp]:
  "websocket (sendLoop_body t snap i) = websocket t"
  "waitingPing (sendLoop_body t snap i) = waitingPing t"
  by (simp_all add: sendLoop_body_def websocket_send_def sendLoop_finally_def console_log_def
      split: option.splits)

lemma while_keeps [simp]:
  "websocket (sendLoop_while t) = websocket t"
  "waitingPing (sendLoop_while t) = waitingPing t"
  by (simp_all add: sendLoop_while_def sendLoop_finally_def)

lemma resume_keeps [simp]:
  "websocket (sendLoop_resume t k) = websocket t"
  "waitingPing (sendLoop_resume t k) = waitingPing t"
  by (simp_all add: sendLoop_resume_def sendLoop_for_def split: prod.splits)

lemma send_keeps [simp]:
  "websocket (snd (Tunnel_send t b)) = websocket t"
  "waitingPing (snd (Tunnel_send t b)) = waitingPing t"
  by (simp_all add: Tunnel_send_def Let_def Tunnel_pushSendRequest_def Tunnel_startSendLoop_def
      Tunnel_sendLoop_def console_log_def)

lemma tick_unanswered: "unanswered t \<Longrightarrow> unanswered (TunMgr_tick t now)"
  by (auto simp: unanswered_def TunMgr_tick_def Tunnel_keepalive_def Let_def Tunnel_sendPingMessage_def)

lemma ticks_unanswered: "unanswered t \<Longrightarrow> unanswered (fold (\<lambda>now u. TunMgr_tick u now) ticks t)"
  by (induction ticks arbitrary: t) (simp_all add: tick_unanswered)

text \<open>
  However many ticks a tunnel gets that never receives a message, \<^verbatim>\<open>keepalive\<close> does
  not close it.
\<close>

lemma silent_tunnel_never_closes:
  "websocket (fold (\<lambda>now u. TunMgr_tick u now) ticks (TunMgr_fetch keys i now0)) = Some ()"
proof -
  have "unanswered (TunMgr_fetch keys i now0)"
    by (simp add: unanswered_def TunMgr_fetch_def Tunnel_new_def)
  then show ?thesis
    using ticks_unanswered unanswered_def by blast
qed

text \<open>
  C3.  Keepalive on a tunnel that hears nothing.  The tunnel is accepted at clock
  reading 1000 and ticked six times, ten seconds apart, each time more than the
  interval after the last activity.  Every tick sends a ping, so six pings are on the
  WebSocket; \<^verbatim>\<open>waitingPing\<close>, which the constructor does not set, is \<^verbatim>\<open>NaN\<close>, never
  above 3; after the sixth tick the WebSocket is still held and open and the manager
  still lists the tunnel.
\<close>

theorem keepalive_does_not_close:
  "websocket silent_minute = Some () \<and>
   ws_readyState silent_minute = READY_STATE_OPEN \<and>
   waitingPing silent_minute = NaN \<and>
   waitingPing tunnel0 = Undefined \<and>
   ws_sent silent_minute =
     [PingBuf 11001, PingBuf 21001, PingBuf 31001, PingBuf 41001, PingBuf 51001, PingBuf 61001] \<and>
   mgr_tunnels silent_minute = [0]"
  by code_simp

text \<open>
  C4.  The close sequence and the completion signals.  For every tunnel the close
  handler leaves every promise as it was: \<^verbatim>\<open>callSendBufResolve\<close> calls
  \<^verbatim>\<open>sendBuf.resolve.resolve\<close>, which is undefined, and swallows the exception.  In
  the first scenario, two frames have been handed to \<^verbatim>\<open>send\<close>, the second waits
  in \<^verbatim>\<open>sendBufs\<close>, and the close event arrives: the queue is cleared and the
  WebSocket reference is null, and both promises are still pending.  In the second,
  six pings have been sent and the serializer is idle when the close event arrives:
  the promises of all six, which \<^verbatim>\<open>sendPingMessage\<close> awaits, are still pending
  after the WebSocket reference is null.
\<close>

theorem close_resolves_nothing:
  "promises (snd (closeHandler t)) = promises t \<and>
   map buf (sendBufs two_sends) = [Raw [8, 0, 0, 7, 0]] \<and>
   promises two_sends = [Pending, Pending] \<and>
   fst (closeHandler two_sends) = None \<and>
   sendBufs (snd (closeHandler two_sends)) = [] \<and>
   websocket (snd (closeHandler two_sends)) = None \<and>
   promises (snd (closeHandler two_sends)) = [Pending, Pending] \<and>
   sendBufs silent_minute = [] \<and> drainers silent_minute = [] \<and>
   websocket (snd (closeHandler silent_minute)) = None \<and>
   promises (snd (closeHandler silent_minute)) =
     [Pending, Pending, Pending, Pending, Pending, Pending]"
proof -
  have r: "promises (Tunnel_callSendBufResolve u sb) = promises u" for u sb
    by (cases "resolve sb") (simp_all add: Tunnel_callSendBufResolve_def console_log_def)
  have f: "promises (fold (\<lambda>sb u. Tunnel_callSendBufResolve u sb) sbs u) = promises u" for sbs u
    by (induction sbs arbitrary: u) (simp_all add: r)
  have g: "promises (snd (closeHandler t)) = promises t"
    by (simp add: closeHandler_def Tunnel_onClosed_def Let_def f Tunnel_close_def
        TunMgr_onTunnelClosed_def console_log_def split: sum.splits prod.splits)
  have "map buf (sendBufs two_sends) = [Raw [8, 0, 0, 7, 0]] \<and>
   promises two_sends = [Pending, Pending] \<and>
   fst (closeHandler two_sends) = None \<and>
   sendBufs (snd (closeHandler two_sends)) = [] \<and>
   websocket (snd (closeHandler two_sends)) = None \<and>
   promises (snd (closeHandler two_sends)) = [Pending, Pending] \<and>
   sendBufs silent_minute = [] \<and> drainers silent_minute = [] \<and>
   websocket (snd (closeHandler silent_minute)) = None \<and>
   promises (snd (closeHandler silent_minute)) =
     [Pending, Pending, Pending, Pending, Pending, Pending]"
    by code_simp
  with g show ?thesis by simp
qed

end
